theory Spec2Isabelle
  imports
    Complex_Main
    "HOL-Library.Multiset"
    "HOL-Library.Product_Lexorder"
    "HOL-Library.List_Lexorder"
    "HOL-Library.Char_ord"
begin

section \<open>Errors\<close>

text \<open>The exceptions the notebook's cells can end with.\<close>

datatype error =
    ValueError
  | KeyError
  | TypeError
  | NameError
  | IndexError
  | FileNotFoundError
  | PollingTimeoutError

section \<open>The result joiner\<close>

text \<open>
  The notebook reads the two result files of the topic-modelling job and joins them:
  \<^verbatim>\<open>
    topics = (
        pd.read_csv("data/topic-terms.csv")
        .sort_values(["topic", "weight"], ascending=[True, False])
        .groupby(["topic"])["term"]
        .agg(lambda x: ", ".join(x))
    )
    docs = pd.read_csv("data/doc-topics.csv").sort_values(
        ["docname", "proportion"], ascending=[True, False]
    )
    results = pd.merge(docs, topics, how="left", on="topic")
  \<close>
  A table is the list of its rows, in row order. The topic, weight and proportion columns
  hold numerals in the service's files and are taken as read: an integer topic, a finite
  weight or proportion (a real number here). The term and the document name are text.
  The first part below is the three statements on frames whose text columns hold the
  strings of the file; the second part adds what \<open>read_csv\<close> does to a text column
  before, and what the statements do with cells that are not strings. The missing value
  of the joined column is \<open>None\<close>.
\<close>

subsection \<open>On frames of strings\<close>

record term_row =
  topic :: int
  weight :: real
  term_text :: string

record doc_row =
  docname :: string
  doc_topic :: int
  proportion :: real

type_synonym result_row = "string \<times> int \<times> real \<times> string option"

text \<open>\<open>sep.join(xs)\<close> of Python.\<close>

fun join_str :: "string \<Rightarrow> string list \<Rightarrow> string" where
  "join_str sep [] = []"
| "join_str sep [x] = x"
| "join_str sep (x # y # ys) = x @ sep @ join_str sep (y # ys)"

text \<open>
  \<open>sort_values\<close> on two columns is a stable lexicographic sort; a descending column
  compares by the negated value, and rows that agree on both columns keep their order.
\<close>

definition sort_values_terms :: "term_row list \<Rightarrow> term_row list" where
  "sort_values_terms rows = sort_key (\<lambda>r. (topic r, - weight r)) rows"

text \<open>
  \<open>groupby(["topic"])["term"].agg(f)\<close>: one entry per distinct topic, the topics in
  ascending order, \<open>f\<close> applied to the terms of the topic's rows in frame order.
\<close>

definition groupby_agg :: "term_row list \<Rightarrow> (int \<times> string) list" where
  "groupby_agg rows =
     map (\<lambda>t. (t, join_str '', '' (map term_text (filter (\<lambda>r. topic r = t) rows))))
       (sort (remdups (map topic rows)))"

definition topics :: "term_row list \<Rightarrow> (int \<times> string) list" where
  "topics topic_terms_csv = groupby_agg (sort_values_terms topic_terms_csv)"

definition docs :: "doc_row list \<Rightarrow> doc_row list" where
  "docs doc_topics_csv = sort_key (\<lambda>d. (docname d, - proportion d)) doc_topics_csv"

text \<open>
  \<open>pd.merge(left, right, how="left", on="topic")\<close>: the left rows in their order; a
  left row is repeated once for each right row with its topic, in the right's order,
  and stays once with a missing term when there is none.
\<close>

definition merge_left :: "doc_row list \<Rightarrow> (int \<times> string) list \<Rightarrow> result_row list" where
  "merge_left left right =
     concat (map (\<lambda>d.
       (case filter (\<lambda>(t, s). t = doc_topic d) right of
          [] \<Rightarrow> [(docname d, doc_topic d, proportion d, None)]
        | ms \<Rightarrow> map (\<lambda>(t, s). (docname d, doc_topic d, proportion d, Some s)) ms)) left)"

definition results :: "term_row list \<Rightarrow> doc_row list \<Rightarrow> result_row list" where
  "results topic_terms_csv doc_topics_csv =
     merge_left (docs doc_topics_csv) (topics topic_terms_csv)"

subsection \<open>Reading the files\<close>

text \<open>
  \<open>read_csv\<close> with its defaults does not return every text cell as written. A cell
  whose text is one of the missing-value tokens is read as NaN. When every other cell of
  the column is a number the column is numeric, when every other cell is a boolean it is
  boolean, and only otherwise do the cells stay strings. The tokens are the documented
  defaults of the library (the last of them, \<open>None\<close>, only in its later versions).
  What the parser takes for a number or for a boolean is not in the notebook; it is the
  parameter \<open>infer\<close>, which says what a cell's text is on its own.
\<close>

definition na_values :: "string list" where
  "na_values =
     [[], ''#N/A'', ''#N/A N/A'', ''#NA'', ''-1.#IND'', ''-1.#QNAN'', ''-NaN'', ''-nan'',
      ''1.#IND'', ''1.#QNAN'', ''<NA>'', ''N/A'', ''NA'', ''NULL'', ''NaN'', ''n/a'', ''nan'',
      ''null'', ''None'']"

datatype scalar = IsNumber real | IsBoolean bool | IsText

datatype cell = Str string | Number real | Boolean bool | NaN

fun is_number :: "scalar \<Rightarrow> bool" where
  "is_number (IsNumber r) = True"
| "is_number _ = False"

fun is_boolean :: "scalar \<Rightarrow> bool" where
  "is_boolean (IsBoolean b) = True"
| "is_boolean _ = False"

fun converted :: "scalar \<Rightarrow> cell" where
  "converted (IsNumber r) = Number r"
| "converted (IsBoolean b) = Boolean b"
| "converted IsText = NaN"

definition read_column :: "(string \<Rightarrow> scalar) \<Rightarrow> string list \<Rightarrow> cell list" where
  "read_column infer column =
     (let present = filter (\<lambda>c. c \<notin> set na_values) column
      in if \<forall>c \<in> set present. is_number (infer c)
         then map (\<lambda>c. if c \<in> set na_values then NaN else converted (infer c)) column
         else if \<forall>c \<in> set present. is_boolean (infer c)
         then map (\<lambda>c. if c \<in> set na_values then NaN else converted (infer c)) column
         else map (\<lambda>c. if c \<in> set na_values then NaN else Str c) column)"

definition read_topic_terms ::
  "(string \<Rightarrow> scalar) \<Rightarrow> term_row list \<Rightarrow> (int \<times> real \<times> cell) list" where
  "read_topic_terms infer csv =
     map2 (\<lambda>r c. (topic r, weight r, c)) csv (read_column infer (map term_text csv))"

definition read_doc_topics ::
  "(string \<Rightarrow> scalar) \<Rightarrow> doc_row list \<Rightarrow> (cell \<times> int \<times> real) list" where
  "read_doc_topics infer csv =
     map2 (\<lambda>d c. (c, doc_topic d, proportion d)) csv (read_column infer (map docname csv))"

text \<open>
  \<open>", ".join(x)\<close> raises \<open>TypeError\<close> unless every item of \<open>x\<close> is a string; the
  aggregation calls it group by group and ends with the first error.
\<close>

fun strs_of :: "cell list \<Rightarrow> string list option" where
  "strs_of [] = Some []"
| "strs_of (Str s # cs) = map_option ((#) s) (strs_of cs)"
| "strs_of (c # cs) = None"

definition join_cells :: "string \<Rightarrow> cell list \<Rightarrow> error + string" where
  "join_cells sep cs =
     (case strs_of cs of None \<Rightarrow> Inl TypeError | Some ss \<Rightarrow> Inr (join_str sep ss))"

fun agg_groups :: "(int \<times> real \<times> cell) list \<Rightarrow> int list \<Rightarrow> error + (int \<times> string) list" where
  "agg_groups rows [] = Inr []"
| "agg_groups rows (t # ts) =
     (case join_cells '', '' (map (\<lambda>(t', w, c). c) (filter (\<lambda>(t', w, c). t' = t) rows)) of
        Inl e \<Rightarrow> Inl e
      | Inr s \<Rightarrow>
          (case agg_groups rows ts of Inl e \<Rightarrow> Inl e | Inr rest \<Rightarrow> Inr ((t, s) # rest)))"

definition topics_csv ::
  "(string \<Rightarrow> scalar) \<Rightarrow> term_row list \<Rightarrow> error + (int \<times> string) list" where
  "topics_csv infer topic_terms_file =
     (let rows = sort_key (\<lambda>(t, w, c). (t, - w)) (read_topic_terms infer topic_terms_file)
      in agg_groups rows (sort (remdups (map fst rows))))"

text \<open>
  A column sorts by its values with the missing ones last. A column read as text holds
  strings, a numeric one numbers, a boolean one booleans, so that the key compares like
  with like.
\<close>

fun cell_key :: "cell \<Rightarrow> nat \<times> string \<times> real" where
  "cell_key (Str s) = (0, s, 0)"
| "cell_key (Number r) = (0, [], r)"
| "cell_key (Boolean b) = (0, [], if b then 1 else 0)"
| "cell_key NaN = (1, [], 0)"

definition docs_csv ::
  "(string \<Rightarrow> scalar) \<Rightarrow> doc_row list \<Rightarrow> (cell \<times> int \<times> real) list" where
  "docs_csv infer doc_topics_file =
     sort_key (\<lambda>(c, t, p). (cell_key c, - p)) (read_doc_topics infer doc_topics_file)"

definition merge_csv ::
  "(cell \<times> int \<times> real) list \<Rightarrow> (int \<times> string) list \<Rightarrow>
   (cell \<times> int \<times> real \<times> string option) list" where
  "merge_csv left right =
     concat (map (\<lambda>(c, t, p).
       (case filter (\<lambda>(t', s). t' = t) right of
          [] \<Rightarrow> [(c, t, p, None)]
        | ms \<Rightarrow> map (\<lambda>(t', s). (c, t, p, Some s)) ms)) left)"

text \<open>The cell's three statements on the files; \<open>topics\<close> is evaluated first.\<close>

definition results_csv ::
  "(string \<Rightarrow> scalar) \<Rightarrow> term_row list \<Rightarrow> doc_row list \<Rightarrow>
   error + (cell \<times> int \<times> real \<times> string option) list" where
  "results_csv infer topic_terms_file doc_topics_file =
     (case topics_csv infer topic_terms_file of
        Inl e \<Rightarrow> Inl e
      | Inr ts \<Rightarrow> Inr (merge_csv (docs_csv infer doc_topics_file) ts))"

text \<open>
  An inference to evaluate with: the six boolean words, unsigned decimal integers, and
  text for everything else.
\<close>

definition example_infer :: "string \<Rightarrow> scalar" where
  "example_infer c =
     (if c \<in> set [''True'', ''TRUE'', ''true''] then IsBoolean True
      else if c \<in> set [''False'', ''FALSE'', ''false''] then IsBoolean False
      else if c \<noteq> [] \<and> (\<forall>d \<in> set c. d \<in> set ''0123456789'')
      then IsNumber (of_nat (foldl (\<lambda>n d. 10 * n + (of_char d - 48)) 0 c))
      else IsText)"

section \<open>The dataset sampler\<close>

text \<open>
  \<^verbatim>\<open>
    article_names = [
        os.path.basename(article["Key"])
        for article in sample(
            s3.list_objects_v2(Bucket=pmc_bucket, Prefix=pmc_prefix)["Contents"], 25
        )
    ]
  \<close>
  The random generator is a sequence \<open>rnd\<close> of draws and a position in it: the call of
  \<open>randbelow(m)\<close> at position \<open>pos\<close> returns \<open>rnd pos mod m\<close> and moves the position on.
  \<open>random.sample(population, k)\<close> raises \<open>ValueError\<close> when \<open>k\<close> exceeds the population;
  otherwise it fills the result from a pool, moving the pool's last live item into the
  place of the one just taken:
  \<^verbatim>\<open>
    for i in range(k):
        j = randbelow(n - i)
        result[i] = pool[j]
        pool[j] = pool[n - i - 1]
  \<close>
  (For a population above a threshold that grows with \<open>k\<close> the library tracks the
  selected positions in a set instead and may pick other items from the same draws. The
  pool is what it uses whenever \<open>k\<close> is the size of the population, and a call with
  \<open>k = 1\<close> returns the item at the first draw in both.)
\<close>

fun pool_select :: "(nat \<Rightarrow> nat) \<Rightarrow> nat \<Rightarrow> 'a list \<Rightarrow> nat \<Rightarrow> nat \<Rightarrow> 'a list" where
  "pool_select rnd pos pool m 0 = []"
| "pool_select rnd pos pool m (Suc k) =
     (let j = rnd pos mod m
      in pool ! j # pool_select rnd (Suc pos) (pool[j := pool ! (m - 1)]) (m - 1) k)"

definition random_sample ::
  "(nat \<Rightarrow> nat) \<Rightarrow> nat \<Rightarrow> 'a list \<Rightarrow> nat \<Rightarrow> error + ('a list \<times> nat)" where
  "random_sample rnd pos population k =
     (if length population < k then Inl ValueError
      else Inr (pool_select rnd pos population (length population) k, pos + k))"

text \<open>\<open>os.path.basename\<close>: what follows the last slash.\<close>

definition basename :: "string \<Rightarrow> string" where
  "basename p = rev (takeWhile (\<lambda>c. c \<noteq> CHR ''/'') (rev p))"

text \<open>
  The listing is the response's \<open>Contents\<close> entry, each object by its \<open>Key\<close>; the
  service leaves the entry out when nothing matches the prefix, and the subscript raises
  \<open>KeyError\<close> then. The requested count is the literal 25 in the notebook.
\<close>

definition dataset_sampler ::
  "nat \<Rightarrow> string list option \<Rightarrow> (nat \<Rightarrow> nat) \<Rightarrow> nat \<Rightarrow> error + (string list \<times> nat)" where
  "dataset_sampler k listing rnd pos =
     (case listing of
        None \<Rightarrow> Inl KeyError
      | Some objects \<Rightarrow>
          (case random_sample rnd pos objects k of
             Inl e \<Rightarrow> Inl e
           | Inr (chosen, pos') \<Rightarrow> Inr (map basename chosen, pos')))"

section \<open>The notebook's state\<close>

datatype job_status =
  SUBMITTED | IN_PROGRESS | COMPLETED | FAILED | STOP_REQUESTED | STOPPED

text \<open>What the cells do to the outside, in the order they do it.\<close>

datatype event =
    StartTopicsDetectionJob
  | DescribeTopicsDetectionJob
  | PrintStatus job_status
  | DownloadOutput
  | UnpackOutput
  | JoinTables
  | DisplayResults
  | PrintExample
  | DownloadDocument string
  | HeadDocument string

text \<open>
  The name \<open>sample\<close> is bound by \<open>from random import sample\<close>; the assignment
  \<open>sample = results.sample()\<close> binds it to a one-row frame.
\<close>

datatype sample_value = RandomSample | FrameValue "result_row list"

text \<open>
  The surroundings a run reads: the source listing, the generators' draws, the status
  the service answers to the \<open>i\<close>-th query, the two unpacked result tables, and the
  text \<open>f.read()\<close> returns for each file under \<open>data/raw/\<close>. The notebook's flow is
  followed on runs whose result tables are read as frames of strings, where the join
  returns.
\<close>

record world =
  Contents :: "string list option"
  draws :: "nat \<Rightarrow> nat"
  frame_draw :: nat
  job_status_at :: "nat \<Rightarrow> job_status"
  topic_terms_csv :: "term_row list"
  doc_topics_csv :: "doc_row list"
  raw_files :: "string \<Rightarrow> string option"

text \<open>The notebook's global names, the generator's position, and the effects so far.\<close>

record notebook =
  g_article_names :: "string list"
  g_sample :: sample_value
  g_JobStatus :: "job_status option"
  g_results :: "result_row list option"
  rng_pos :: nat
  describe_calls :: nat
  trace :: "event list"

text \<open>
  The cell that stages the articles. The argument of the call is evaluated before the
  call: a missing \<open>Contents\<close> raises before \<open>sample\<close> is applied.
\<close>

definition article_names_cell :: "world \<Rightarrow> notebook \<Rightarrow> notebook \<times> error option" where
  "article_names_cell w s =
     (case Contents w of
        None \<Rightarrow> (s, Some KeyError)
      | Some objects \<Rightarrow>
          (case g_sample s of
             FrameValue df \<Rightarrow> (s, Some TypeError)
           | RandomSample \<Rightarrow>
               (case dataset_sampler 25 (Contents w) (draws w) (rng_pos s) of
                  Inl e \<Rightarrow> (s, Some e)
                | Inr (names, pos') \<Rightarrow>
                    (s\<lparr>g_article_names := names, rng_pos := pos'\<rparr>, None))))"

section \<open>The topic-modelling client\<close>

text \<open>
  \<^verbatim>\<open>
    start_topics_detection_job_result = comprehend.start_topics_detection_job(...)
  \<close>
\<close>

definition submit_cell :: "world \<Rightarrow> notebook \<Rightarrow> notebook \<times> error option" where
  "submit_cell w s = (s\<lparr>trace := trace s @ [StartTopicsDetectionJob]\<rparr>, None)"

text \<open>
  \<^verbatim>\<open>
    describe_topics_detection_job_result = comprehend.describe_topics_detection_job(
        JobId=job_id
    ).get("TopicsDetectionJobProperties", [])
    print(f"Job {job_id} status is {describe_topics_detection_job_result['JobStatus']}")

    if describe_topics_detection_job_result["JobStatus"] == "COMPLETED":
        ... download, unpack, topics, docs, results ...
        display(results)
  \<close>
\<close>

definition describe_cell :: "world \<Rightarrow> notebook \<Rightarrow> notebook \<times> error option" where
  "describe_cell w s =
     (let status = job_status_at w (describe_calls s);
          s1 = s\<lparr>g_JobStatus := Some status,
                 describe_calls := describe_calls s + 1,
                 trace := trace s @ [DescribeTopicsDetectionJob, PrintStatus status]\<rparr>
      in if status = COMPLETED
         then (s1\<lparr>g_results := Some (results (topic_terms_csv w) (doc_topics_csv w)),
                  trace := trace s1 @ [DownloadOutput, UnpackOutput, JoinTables, DisplayResults]\<rparr>,
               None)
         else (s1, None))"

text \<open>\<open>DataFrame.sample()\<close>: one row of the frame; \<open>ValueError\<close> on an empty frame.\<close>

definition frame_sample :: "result_row list \<Rightarrow> nat \<Rightarrow> error + result_row list" where
  "frame_sample df r = (if df = [] then Inl ValueError else Inr [df ! (r mod length df)])"

text \<open>
  \<^verbatim>\<open>
    if describe_topics_detection_job_result["JobStatus"] == "COMPLETED":
        input_url = ...
        sample = results.sample()
        docname, idx, score, terms = sample.iloc[0, :]
        print(f"Document name is {docname}")
        print(f"Identified terms are {terms}")
        sm_session.download_data(...)
        os.system(f"head -n 25 data/{docname}")
  \<close>
  A name that no cell has bound yet raises \<open>NameError\<close>.
\<close>

definition examples_cell :: "world \<Rightarrow> notebook \<Rightarrow> notebook \<times> error option" where
  "examples_cell w s =
     (case g_JobStatus s of
        None \<Rightarrow> (s, Some NameError)
      | Some status \<Rightarrow>
          if status = COMPLETED
          then (case g_results s of
                  None \<Rightarrow> (s, Some NameError)
                | Some df \<Rightarrow>
                    (case frame_sample df (frame_draw w) of
                       Inl e \<Rightarrow> (s, Some e)
                     | Inr row \<Rightarrow>
                         (let s1 = s\<lparr>g_sample := FrameValue row\<rparr>
                          in case row of
                               [] \<Rightarrow> (s1, Some IndexError)
                             | (name, idx, score, terms) # _ \<Rightarrow>
                                 (s1\<lparr>trace := trace s1 @
                                      [PrintExample, DownloadDocument name, HeadDocument name]\<rparr>,
                                  None))))
          else (s, None))"

text \<open>Cells run in order; a cell that raised stops the run.\<close>

definition then_cell ::
  "(notebook \<Rightarrow> notebook \<times> error option) \<Rightarrow> (notebook \<Rightarrow> notebook \<times> error option) \<Rightarrow>
   notebook \<Rightarrow> notebook \<times> error option" where
  "then_cell c1 c2 s = (case c1 s of (s1, Some e) \<Rightarrow> (s1, Some e) | (s1, None) \<Rightarrow> c2 s1)"

definition topic_modelling :: "world \<Rightarrow> notebook \<Rightarrow> notebook \<times> error option" where
  "topic_modelling w = then_cell (submit_cell w) (then_cell (describe_cell w) (examples_cell w))"

section \<open>Input selection\<close>

text \<open>
  \<^verbatim>\<open>
    result = None
    while result is None:
        art = sample(article_names, 1)[0]
        print(art)
        with open(f"data/raw/{art}", "r", encoding="utf-8", errors="replace") as f:
            text = f.read().replace("\n", " ").replace("\t", " ")
            result = re.search("Background (.{,1000})", text)
    dict = {"inputs": result.group(1)}
  \<close>
\<close>

text \<open>
  A string is the list of its characters. \<open>str.replace\<close> with one-character arguments
  replaces every occurrence; the text is flattened by replacing the newlines and then
  the tabs by spaces.
\<close>

definition replace_char :: "char \<Rightarrow> char \<Rightarrow> string \<Rightarrow> string" where
  "replace_char old new s = map (\<lambda>c. if c = old then new else c) s"

definition flatten :: "string \<Rightarrow> string" where
  "flatten raw = replace_char (CHR 0x09) CHR '' '' (replace_char (CHR 0x0A) CHR '' '' raw)"

text \<open>
  The pattern is a literal followed by the group \<open>(.{,n})\<close>. The quantifier is greedy
  and \<open>.\<close> matches every character but a newline: the group is the longest run of at
  most \<open>n\<close> such characters. \<open>re.search\<close> tries the positions from the left and
  returns the first match; \<open>re_search\<close> gives its \<open>group(1)\<close>.
\<close>

definition dot_upto :: "nat \<Rightarrow> string \<Rightarrow> string" where
  "dot_upto n s = takeWhile (\<lambda>c. c \<noteq> CHR 0x0A) (take n s)"

fun re_search :: "string \<Rightarrow> nat \<Rightarrow> string \<Rightarrow> string option" where
  "re_search lit n [] = (if lit = [] then Some [] else None)"
| "re_search lit n (c # cs) =
     (if take (length lit) (c # cs) = lit then Some (dot_upto n (drop (length lit) (c # cs)))
      else re_search lit n cs)"

definition re_search_Background :: "string \<Rightarrow> string option" where
  "re_search_Background s = re_search ''Background '' 1000 s"

definition summarization_input :: "string \<Rightarrow> string option" where
  "summarization_input raw = re_search_Background (flatten raw)"

partial_function (option) input_selection ::
  "world \<Rightarrow> notebook \<Rightarrow> (error + (string \<times> notebook)) option" where
  "input_selection w s =
     (case g_sample s of
        FrameValue df \<Rightarrow> Some (Inl TypeError)
      | RandomSample \<Rightarrow>
          (case random_sample (draws w) (rng_pos s) (g_article_names s) 1 of
             Inl e \<Rightarrow> Some (Inl e)
           | Inr (chosen, pos') \<Rightarrow>
               (case chosen of
                  [] \<Rightarrow> Some (Inl IndexError)
                | art # _ \<Rightarrow>
                    (case raw_files w art of
                       None \<Rightarrow> Some (Inl FileNotFoundError)
                     | Some raw \<Rightarrow>
                         (case summarization_input raw of
                            Some inputs \<Rightarrow> Some (Inr (inputs, s\<lparr>rng_pos := pos'\<rparr>))
                          | None \<Rightarrow> input_selection w (s\<lparr>rng_pos := pos'\<rparr>))))))"

text \<open>
  Notions for stating what the loop does: the article it reads at a generator position,
  whether an article's file is there and its flattened text has the pattern, whether
  every staged article has its file, and whether no article read from the current
  position on has the pattern.
\<close>

definition art_at :: "world \<Rightarrow> notebook \<Rightarrow> nat \<Rightarrow> string" where
  "art_at w s pos = g_article_names s ! (draws w pos mod length (g_article_names s))"

definition matches :: "world \<Rightarrow> string \<Rightarrow> bool" where
  "matches w art =
     (case raw_files w art of None \<Rightarrow> False | Some raw \<Rightarrow> summarization_input raw \<noteq> None)"

definition staged :: "world \<Rightarrow> notebook \<Rightarrow> bool" where
  "staged w s =
     (g_article_names s \<noteq> [] \<and> (\<forall>a \<in> set (g_article_names s). raw_files w a \<noteq> None))"

definition never_matches :: "world \<Rightarrow> notebook \<Rightarrow> bool" where
  "never_matches w s =
     (g_sample s = RandomSample \<and> staged w s
      \<and> (\<forall>pos \<ge> rng_pos s. \<not> matches w (art_at w s pos)))"

section \<open>The summarization client\<close>

text \<open>
  \<^verbatim>\<open>
    async_response = predictor.predict_async(data=dict)
    waiter = WaiterConfig(max_attempts=24, delay=15)
    result = async_response.get_result(waiter)
  \<close>
\<close>

record WaiterConfig =
  max_attempts :: nat
  delay :: nat

definition waiter :: WaiterConfig where
  "waiter = \<lparr>max_attempts = 24, delay = 15\<rparr>"

text \<open>
  Modelled from the spec: the wait behind \<open>get_result\<close> belongs to the inference
  service's client library and is not part of the notebook, which only sets its two
  constants. The spec describes it as a bounded-retry wait policy: up to
  \<open>max_attempts\<close> attempts, \<open>delay\<close> time units apart, giving the generated text when
  the result is there and a timeout error once the attempts are used up. The attempt at
  time \<open>t\<close> finds \<open>output_at t\<close>; the function returns the times of its attempts with
  the outcome.
\<close>

function wait_for_output ::
  "WaiterConfig \<Rightarrow> (nat \<Rightarrow> string option) \<Rightarrow> nat \<Rightarrow> nat \<Rightarrow> nat list \<times> (error + string)" where
  "wait_for_output cfg output_at t num_attempts =
     (case output_at t of
        Some r \<Rightarrow> ([t], Inr r)
      | None \<Rightarrow>
          if max_attempts cfg \<le> num_attempts + 1 then ([t], Inl PollingTimeoutError)
          else (case wait_for_output cfg output_at (t + delay cfg) (num_attempts + 1) of
                  (ts, r) \<Rightarrow> (t # ts, r)))"
  by pat_completeness auto
termination
  by (relation "measure (\<lambda>(cfg, output_at, t, num_attempts). max_attempts cfg - num_attempts)") auto

declare wait_for_output.simps [simp del]

definition get_result ::
  "WaiterConfig \<Rightarrow> (nat \<Rightarrow> string option) \<Rightarrow> nat \<Rightarrow> nat list \<times> (error + string)" where
  "get_result cfg output_at t0 = wait_for_output cfg output_at t0 0"

text \<open>The cell calls \<open>get_result\<close> once; what it raises ends the cell.\<close>

definition result_cell :: "(nat \<Rightarrow> string option) \<Rightarrow> nat \<Rightarrow> nat list \<times> (error + string)" where
  "result_cell output_at t0 = get_result waiter output_at t0"

section \<open>A sample run\<close>

text \<open>
  A run to evaluate the cells on: 25 staged articles, none with a background section,
  a job that is completed when its status is asked, and the result tables of the
  end-to-end scenario.
\<close>

definition example_names :: "string list" where
  "example_names =
    [''PMC01.txt'', ''PMC02.txt'', ''PMC03.txt'', ''PMC04.txt'', ''PMC05.txt'',
     ''PMC06.txt'', ''PMC07.txt'', ''PMC08.txt'', ''PMC09.txt'', ''PMC10.txt'',
     ''PMC11.txt'', ''PMC12.txt'', ''PMC13.txt'', ''PMC14.txt'', ''PMC15.txt'',
     ''PMC16.txt'', ''PMC17.txt'', ''PMC18.txt'', ''PMC19.txt'', ''PMC20.txt'',
     ''PMC21.txt'', ''PMC22.txt'', ''PMC23.txt'', ''PMC24.txt'', ''PMC25.txt'']"

definition example_world :: world where
  "example_world =
     \<lparr>Contents = Some (map (\<lambda>n. ''oa_comm/txt/all/'' @ n) example_names),
      draws = (\<lambda>i. 7 * i + 3),
      frame_draw = 0,
      job_status_at = (\<lambda>i. COMPLETED),
      topic_terms_csv =
        [\<lparr>topic = 1, weight = 9/10, term_text = ''gene''\<rparr>,
         \<lparr>topic = 1, weight = 5/10, term_text = ''cell''\<rparr>],
      doc_topics_csv = [\<lparr>docname = ''a.txt'', doc_topic = 1, proportion = 8/10\<rparr>],
      raw_files = (\<lambda>name. Some ''Methods and results only.'')\<rparr>"

definition example_notebook :: notebook where
  "example_notebook =
     \<lparr>g_article_names = example_names,
      g_sample = RandomSample,
      g_JobStatus = None,
      g_results = None,
      rng_pos = 25,
      describe_calls = 0,
      trace = []\<rparr>"

section \<open>Properties of the result joiner\<close>


lemma groupby_agg_keys: "map fst (groupby_agg rows) = sort (remdups (map topic rows))"
  by (simp add: groupby_agg_def comp_def)

lemma topics_keys: "map fst (topics tt) = sort (remdups (map topic tt))"
proof -
  have "set (map topic (sort_values_terms tt)) = set (map topic tt)"
    by (simp add: sort_values_terms_def)
  then have "mset (remdups (map topic (sort_values_terms tt))) = mset (remdups (map topic tt))"
    by (rule iffD1 [OF set_eq_iff_mset_remdups_eq])
  then have "sort (remdups (map topic (sort_values_terms tt))) = sort (remdups (map topic tt))"
    by (intro properties_for_sort) simp_all
  then show ?thesis
    by (simp add: topics_def groupby_agg_keys)
qed

lemma topics_distinct: "distinct (map fst (topics tt))"
  by (simp add: topics_keys)


lemma filter_key_distinct:
  "distinct (map fst right) \<Longrightarrow>
   filter (\<lambda>(t, s). t = k) right = (case map_of right k of None \<Rightarrow> [] | Some s \<Rightarrow> [(k, s)])"
proof (induction right)
  case Nil
  then show ?case by simp
next
  case (Cons a right)
  obtain t s where a: "a = (t, s)" by (cases a)
  show ?case
  proof (cases "t = k")
    case True
    with Cons.prems a have "k \<notin> fst ` set right" by auto
    then have "filter (\<lambda>(t, s). t = k) right = []"
      by (force simp: filter_empty_conv)
    with True a show ?thesis by simp
  next
    case False
    with Cons a show ?thesis by simp
  qed
qed

lemma merge_left_distinct:
  assumes "distinct (map fst right)"
  shows "merge_left left right =
    map (\<lambda>d. (docname d, doc_topic d, proportion d, map_of right (doc_topic d))) left"
proof -
  have row: "(case filter (\<lambda>(t, s). t = doc_topic d) right of
          [] \<Rightarrow> [(docname d, doc_topic d, proportion d, None)]
        | ms \<Rightarrow> map (\<lambda>(t, s). (docname d, doc_topic d, proportion d, Some s)) ms)
        = [(docname d, doc_topic d, proportion d, map_of right (doc_topic d))]" for d
    by (simp add: filter_key_distinct [OF assms] split: option.split)
  show ?thesis
    unfolding merge_left_def row by (rule concat_map_singleton)
qed

lemma results_rows:
  "results tt dt =
     map (\<lambda>d. (docname d, doc_topic d, proportion d, map_of (topics tt) (doc_topic d))) (docs dt)"
  by (simp add: results_def merge_left_distinct [OF topics_distinct])





text \<open>
  C3. The end-to-end scenario: the term rows (1, 0.9, "gene") and (1, 0.5, "cell") with
  the document row ("a.txt", 1, 0.8) join to the single row ("a.txt", 1, 0.8, "gene, cell").
\<close>

theorem end_to_end_scenario:
  "results
     [\<lparr>topic = 1, weight = 9/10, term_text = ''gene''\<rparr>, \<lparr>topic = 1, weight = 5/10, term_text = ''cell''\<rparr>]
     [\<lparr>docname = ''a.txt'', doc_topic = 1, proportion = 8/10\<rparr>]
   = [(''a.txt'', 1, 8/10, Some ''gene, cell'')]"
  by (simp add: results_def merge_left_def docs_def topics_def groupby_agg_def sort_values_terms_def)

section \<open>Properties of reading the files\<close>

lemma length_read_column: "length (read_column infer column) = length column"
  by (simp add: read_column_def Let_def)

lemma map2_same: "map2 f xs (map g xs) = map (\<lambda>x. f x (g x)) xs"
  by (induction xs) simp_all

lemma insort_key_map:
  "insort_key f (g x) (map g xs) = map g (insort_key (\<lambda>y. f (g y)) x xs)"
  by (induction xs) simp_all

lemma sort_key_map: "sort_key f (map g xs) = map g (sort_key (\<lambda>y. f (g y)) xs)"
  by (induction xs) (simp_all add: insort_key_map)

lemma strs_of_Str: "strs_of (map Str ss) = Some ss"
  by (induction ss) simp_all

lemma strs_of_None: "strs_of cs = None \<longleftrightarrow> (\<exists>c \<in> set cs. \<forall>s. c \<noteq> Str s)"
proof (induction cs)
  case Nil
  then show ?case by simp
next
  case (Cons c cs)
  then show ?case by (cases c) auto
qed

text \<open>The term column read as the strings of the file.\<close>

lemma read_topic_terms_text:
  assumes "read_column infer (map term_text tt) = map Str (map term_text tt)"
  shows "read_topic_terms infer tt = map (\<lambda>r. (topic r, weight r, Str (term_text r))) tt"
  by (simp add: read_topic_terms_def assms map2_same [of _ _ "\<lambda>r. Str (term_text r)", simplified comp_def] comp_def)


lemma agg_groups_text:
  "agg_groups (map (\<lambda>r. (topic r, weight r, Str (term_text r))) rows) ks =
     Inr (map (\<lambda>t. (t, join_str '', '' (map term_text (filter (\<lambda>r. topic r = t) rows)))) ks)"
proof (induction ks)
  case Nil
  then show ?case by simp
next
  case (Cons t ks)
  have "map (\<lambda>(t', w, c). c)
          (filter (\<lambda>(t', w, c). t' = t) (map (\<lambda>r. (topic r, weight r, Str (term_text r))) rows))
      = map Str (map term_text (filter (\<lambda>r. topic r = t) rows))"
    by (simp add: filter_map comp_def)
  then have "join_cells '', ''
        (map (\<lambda>(t', w, c). c)
          (filter (\<lambda>(t', w, c). t' = t) (map (\<lambda>r. (topic r, weight r, Str (term_text r))) rows)))
      = Inr (join_str '', '' (map term_text (filter (\<lambda>r. topic r = t) rows)))"
    by (simp only: join_cells_def strs_of_Str option.case)
  with Cons.IH show ?case by simp
qed

lemma topics_csv_text:
  assumes "read_column infer (map term_text tt) = map Str (map term_text tt)"
  shows "topics_csv infer tt = Inr (topics tt)"
proof -
  let ?h = "\<lambda>r. (topic r, weight r, Str (term_text r))"
  have sorted: "sort_key (\<lambda>(t, w, c). (t, - w)) (read_topic_terms infer tt)
      = map ?h (sort_values_terms tt)"
    by (simp add: read_topic_terms_text [OF assms] sort_key_map sort_values_terms_def)
  have keys: "map fst (map ?h (sort_values_terms tt)) = map topic (sort_values_terms tt)"
    by (simp add: comp_def)
  show ?thesis
    unfolding topics_csv_def Let_def sorted keys agg_groups_text
    by (simp add: topics_def groupby_agg_def)
qed

text \<open>A column that is not read as the strings of the file has a cell that is no string.\<close>

lemma read_column_not_text:
  assumes "read_column infer column \<noteq> map Str column"
  shows "\<exists>c \<in> set (read_column infer column). \<forall>s. c \<noteq> Str s"
proof -
  let ?present = "filter (\<lambda>c. c \<notin> set na_values) column"
  from assms have ne: "column \<noteq> []"
    by (auto simp: read_column_def)
  consider (numeric) "\<forall>c \<in> set ?present. is_number (infer c)"
    | (boolean) "\<not> (\<forall>c \<in> set ?present. is_number (infer c))" "\<forall>c \<in> set ?present. is_boolean (infer c)"
    | (textual) "\<not> (\<forall>c \<in> set ?present. is_number (infer c))" "\<not> (\<forall>c \<in> set ?present. is_boolean (infer c))"
    by blast
  then show ?thesis
  proof cases
    case numeric
    then have rc: "read_column infer column =
        map (\<lambda>c. if c \<in> set na_values then NaN else converted (infer c)) column"
      by (simp add: read_column_def)
    have "\<forall>s. (if c \<in> set na_values then NaN else converted (infer c)) \<noteq> Str s"
      if "c \<in> set column" for c
    proof (cases "c \<in> set na_values")
      case True
      then show ?thesis by simp
    next
      case False
      with that numeric have "is_number (infer c)" by simp
      with False show ?thesis by (cases "infer c") simp_all
    qed
    with ne show ?thesis
      unfolding rc by (cases column) auto
  next
    case boolean
    then have rc: "read_column infer column =
        map (\<lambda>c. if c \<in> set na_values then NaN else converted (infer c)) column"
      by (simp add: read_column_def)
    have "\<forall>s. (if c \<in> set na_values then NaN else converted (infer c)) \<noteq> Str s"
      if "c \<in> set column" for c
    proof (cases "c \<in> set na_values")
      case True
      then show ?thesis by simp
    next
      case False
      with that boolean have "is_boolean (infer c)" by simp
      with False show ?thesis by (cases "infer c") simp_all
    qed
    with ne show ?thesis
      unfolding rc by (cases column) auto
  next
    case textual
    have rc: "read_column infer column =
        map (\<lambda>c. if c \<in> set na_values then NaN else Str c) column"
      unfolding read_column_def Let_def by (simp only: textual if_False)
    have "\<exists>c \<in> set column. c \<in> set na_values"
    proof (rule ccontr)
      assume "\<not> (\<exists>c \<in> set column. c \<in> set na_values)"
      then have "map (\<lambda>c. if c \<in> set na_values then NaN else Str c) column = map Str column"
        by (intro map_cong) auto
      with rc assms show False by simp
    qed
    then show ?thesis
      unfolding rc by auto
  qed
qed

lemma agg_groups_error:
  assumes "t \<in> set ks"
    and "strs_of (map (\<lambda>(t', w, c). c) (filter (\<lambda>(t', w, c). t' = t) rows)) = None"
  shows "agg_groups rows ks = Inl TypeError"
  using assms(1)
proof (induction ks)
  case Nil
  then show ?case by simp
next
  case (Cons k ks)
  show ?case
  proof (cases "k = t")
    case True
    with assms(2) show ?thesis by (simp add: join_cells_def)
  next
    case False
    with Cons have "agg_groups rows ks = Inl TypeError" by simp
    then show ?thesis
      by (simp add: join_cells_def split: option.split sum.split)
  qed
qed

lemma read_topic_terms_cells:
  "map (\<lambda>(t, w, c). c) (read_topic_terms infer tt) = read_column infer (map term_text tt)"
proof -
  have "length xs = length ys \<Longrightarrow>
        map (\<lambda>(t, w, c). c) (map2 (\<lambda>r c. (topic r, weight r, c)) xs ys) = ys"
    for xs :: "term_row list" and ys :: "cell list"
    by (induction xs ys rule: list_induct2) simp_all
  then show ?thesis
    by (simp add: read_topic_terms_def length_read_column)
qed

lemma topics_csv_not_text:
  assumes "read_column infer (map term_text tt) \<noteq> map Str (map term_text tt)"
  shows "topics_csv infer tt = Inl TypeError"
proof -
  let ?rows = "sort_key (\<lambda>(t, w, c). (t, - w)) (read_topic_terms infer tt)"
  from read_column_not_text [OF assms] obtain c where
    c: "c \<in> set (read_column infer (map term_text tt))" "\<forall>s. c \<noteq> Str s" by blast
  from c(1) have "c \<in> (\<lambda>(t, w, c). c) ` set (read_topic_terms infer tt)"
    by (simp only: read_topic_terms_cells [symmetric] set_map)
  then obtain x where x: "x \<in> set (read_topic_terms infer tt)" "(\<lambda>(t, w, c). c) x = c"
    by blast
  obtain t w c' where xt: "x = (t, w, c')" by (cases x)
  with x have row: "(t, w, c) \<in> set ?rows" by simp
  then have "fst (t, w, c) \<in> fst ` set ?rows" by (rule imageI)
  then have key: "t \<in> set (sort (remdups (map fst ?rows)))" by simp
  from row have "(t, w, c) \<in> set (filter (\<lambda>(t', w, c). t' = t) ?rows)" by simp
  then have "(\<lambda>(t', w, c). c) (t, w, c)
      \<in> (\<lambda>(t', w, c). c) ` set (filter (\<lambda>(t', w, c). t' = t) ?rows)"
    by (rule imageI)
  then have "c \<in> set (map (\<lambda>(t', w, c). c) (filter (\<lambda>(t', w, c). t' = t) ?rows))"
    by (simp only: set_map prod.case)
  with c(2) have "strs_of (map (\<lambda>(t', w, c). c) (filter (\<lambda>(t', w, c). t' = t) ?rows)) = None"
    unfolding strs_of_None by blast
  from agg_groups_error [OF key this] show ?thesis
    by (simp only: topics_csv_def Let_def)
qed

lemma merge_csv_distinct:
  assumes "distinct (map fst right)"
  shows "merge_csv left right = map (\<lambda>(c, t, p). (c, t, p, map_of right t)) left"
proof -
  have row: "(case filter (\<lambda>(t', s). t' = t) right of
          [] \<Rightarrow> [(c, t, p, None)]
        | ms \<Rightarrow> map (\<lambda>(t', s). (c, t, p, Some s)) ms)
        = [(c, t, p, map_of right t)]" for c :: cell and t and p :: real
    by (simp add: filter_key_distinct [OF assms] split: option.split)
  have "merge_csv left right = concat (map (\<lambda>(c, t, p). [(c, t, p, map_of right t)]) left)"
    unfolding merge_csv_def by (simp only: row)
  also have "\<dots> = map (\<lambda>(c, t, p). (c, t, p, map_of right t)) left"
    by (induction left) auto
  finally show ?thesis .
qed


lemma results_csv_text:
  assumes "read_column infer (map term_text tt) = map Str (map term_text tt)"
  shows "results_csv infer tt dt =
    Inr (map (\<lambda>(c, t, p). (c, t, p, map_of (topics tt) t)) (docs_csv infer dt))"
  by (simp add: results_csv_def topics_csv_text [OF assms] merge_csv_distinct [OF topics_distinct])








text \<open>
  When \<open>read_csv\<close> leaves both text columns as the strings of the files, the cell's
  statements on the files are the statements on frames of strings.
\<close>

lemma insort_key_same_order:
  assumes "\<And>a b. f a \<le> f b \<longleftrightarrow> g a \<le> g b"
  shows "insort_key f x xs = insort_key g x xs"
  by (induction xs) (simp_all add: assms)

lemma sort_key_same_order:
  assumes "\<And>a b. f a \<le> f b \<longleftrightarrow> g a \<le> g b"
  shows "sort_key f xs = sort_key g xs"
  by (induction xs) (simp_all add: insort_key_same_order [of f g, OF assms])

lemma docs_csv_strings:
  assumes "read_column infer (map docname dt) = map Str (map docname dt)"
  shows "docs_csv infer dt = map (\<lambda>d. (Str (docname d), doc_topic d, proportion d)) (docs dt)"
proof -
  let ?h = "\<lambda>d. (Str (docname d), doc_topic d, proportion d)"
  have r: "read_doc_topics infer dt = map ?h dt"
    by (simp add: read_doc_topics_def assms
        map2_same [of _ _ "\<lambda>d. Str (docname d)", simplified comp_def] comp_def)
  have "sort_key (\<lambda>d. ((0::nat, docname d, 0::real), - proportion d)) dt
      = sort_key (\<lambda>d. (docname d, - proportion d)) dt"
    by (rule sort_key_same_order) (auto simp: less_eq_prod_def less_prod_def)
  then show ?thesis
    by (simp add: docs_csv_def r sort_key_map docs_def)
qed

lemma results_csv_strings:
  assumes "read_column infer (map term_text tt) = map Str (map term_text tt)"
    and "read_column infer (map docname dt) = map Str (map docname dt)"
  shows "results_csv infer tt dt = Inr (map (\<lambda>(n, t, p, s). (Str n, t, p, s)) (results tt dt))"
  by (simp add: results_csv_text [OF assms(1)] docs_csv_strings [OF assms(2)] results_rows comp_def)

lemma end_to_end_scenario_files:
  "results_csv example_infer
     [\<lparr>topic = 1, weight = 9/10, term_text = ''gene''\<rparr>, \<lparr>topic = 1, weight = 5/10, term_text = ''cell''\<rparr>]
     [\<lparr>docname = ''a.txt'', doc_topic = 1, proportion = 8/10\<rparr>]
   = Inr [(Str ''a.txt'', 1, 8/10, Some ''gene, cell'')]"
  by (simp add: results_csv_def topics_csv_def read_topic_terms_def read_doc_topics_def
      docs_csv_def merge_csv_def read_column_def example_infer_def na_values_def join_cells_def)


section \<open>Properties of the dataset sampler\<close>

lemma pool_select_length: "length (pool_select rnd pos pool m k) = k"
  by (induction k arbitrary: pos pool m) (simp_all add: Let_def)

lemma take_swap_mset:
  assumes "0 < m" "m \<le> length pool" "j < m"
  shows "add_mset (pool ! j) (mset (take (m - 1) (pool[j := pool ! (m - 1)]))) = mset (take m pool)"
proof -
  from assms have split: "take m pool = take (m - 1) pool @ [pool ! (m - 1)]"
    using take_Suc_conv_app_nth [of "m - 1" pool] by simp
  show ?thesis
  proof (cases "j = m - 1")
    case True
    then show ?thesis by (simp add: split)
  next
    case False
    with assms have j: "j < m - 1" by simp
    with assms have len: "j < length (take (m - 1) pool)" by simp
    have nth: "take (m - 1) pool ! j = pool ! j" using j by simp
    have "take (m - 1) (pool[j := pool ! (m - 1)]) = (take (m - 1) pool)[j := pool ! (m - 1)]"
      using j by (simp add: take_update_swap)
    then have "mset (take (m - 1) (pool[j := pool ! (m - 1)]))
        = add_mset (pool ! (m - 1)) (mset (take (m - 1) pool) - {#pool ! j#})"
      using len by (simp add: mset_update nth)
    moreover have "pool ! j \<in># mset (take (m - 1) pool)"
      using len nth by (metis nth_mem set_mset_mset)
    ultimately show ?thesis by (simp add: split)
  qed
qed

lemma pool_select_sub:
  "k \<le> m \<Longrightarrow> m \<le> length pool \<Longrightarrow>
   \<exists>rest. mset (pool_select rnd pos pool m k) + mset rest = mset (take m pool)"
proof (induction k arbitrary: pos pool m)
  case 0
  show ?case by (rule exI [of _ "take m pool"]) simp
next
  case (Suc k)
  let ?j = "rnd pos mod m"
  let ?pool' = "pool[?j := pool ! (m - 1)]"
  from Suc.prems have m: "0 < m" and j: "?j < m" by simp_all
  from Suc.prems have "k \<le> m - 1" "m - 1 \<le> length ?pool'" by simp_all
  from Suc.IH [OF this] obtain rest where
    "mset (pool_select rnd (Suc pos) ?pool' (m - 1) k) + mset rest = mset (take (m - 1) ?pool')"
    by blast
  then have "mset (pool_select rnd pos pool m (Suc k)) + mset rest
      = add_mset (pool ! ?j) (mset (take (m - 1) ?pool'))"
    by (simp add: Let_def)
  also have "\<dots> = mset (take m pool)"
    using m Suc.prems(2) j by (rule take_swap_mset)
  finally show ?case by blast
qed

lemma pool_select_all:
  "mset (pool_select rnd pos pool (length pool) (length pool)) = mset pool"
proof -
  obtain rest where r: "mset (pool_select rnd pos pool (length pool) (length pool)) + mset rest
      = mset (take (length pool) pool)"
    using pool_select_sub [of "length pool" "length pool" pool rnd pos] by auto
  then have "size (mset (pool_select rnd pos pool (length pool) (length pool)) + mset rest)
      = size (mset pool)" by simp
  then have "rest = []" by (simp add: pool_select_length)
  with r show ?thesis by simp
qed

text \<open>
  C5. On a listing of \<open>n\<close> objects the sampler asked for \<open>n\<close> returns the names of a
  rearrangement of the listing, each object taken exactly once; asked for \<open>n + 1\<close> it
  raises \<open>ValueError\<close> and returns nothing.
\<close>

theorem sampler_boundary:
  "(\<exists>chosen pos'. dataset_sampler (length objects) (Some objects) rnd pos
        = Inr (map basename chosen, pos') \<and> mset chosen = mset objects)
   \<and> dataset_sampler (length objects + 1) (Some objects) rnd pos = Inl ValueError"
proof -
  let ?chosen = "pool_select rnd pos objects (length objects) (length objects)"
  have "dataset_sampler (length objects) (Some objects) rnd pos
      = Inr (map basename ?chosen, pos + length objects)"
    by (simp add: dataset_sampler_def random_sample_def)
  moreover have "mset ?chosen = mset objects"
    by (rule pool_select_all)
  moreover have "dataset_sampler (length objects + 1) (Some objects) rnd pos = Inl ValueError"
    by (simp add: dataset_sampler_def random_sample_def)
  ultimately show ?thesis by blast
qed

text \<open>The same at the notebook's own count of 25.\<close>

lemma article_names_cell_boundary:
  assumes "g_sample s = RandomSample" "Contents w = Some objects"
  shows "length objects = 25 \<Longrightarrow>
           \<exists>chosen. mset chosen = mset objects \<and>
             article_names_cell w s =
               (s\<lparr>g_article_names := map basename chosen, rng_pos := rng_pos s + 25\<rparr>, None)"
    and "length objects = 24 \<Longrightarrow> article_names_cell w s = (s, Some ValueError)"
proof -
  show "length objects = 24 \<Longrightarrow> article_names_cell w s = (s, Some ValueError)"
    using assms by (simp add: article_names_cell_def dataset_sampler_def random_sample_def)
  assume len: "length objects = 25"
  have "mset (pool_select (draws w) (rng_pos s) objects 25 25) = mset objects"
    using pool_select_all [of "draws w" "rng_pos s" objects] len by simp
  then show "\<exists>chosen. mset chosen = mset objects \<and>
             article_names_cell w s =
               (s\<lparr>g_article_names := map basename chosen, rng_pos := rng_pos s + 25\<rparr>, None)"
    using assms len by (auto simp: article_names_cell_def dataset_sampler_def random_sample_def)
qed

section \<open>Properties of the input selection\<close>

lemma flatten_no_newline: "CHR 0x0A \<notin> set (flatten raw)"
  by (auto simp: flatten_def replace_char_def)

lemma dot_upto_no_newline: "CHR 0x0A \<notin> set s \<Longrightarrow> dot_upto n s = take n s"
proof -
  assume "CHR 0x0A \<notin> set s"
  then have "\<forall>c \<in> set (take n s). c \<noteq> CHR 0x0A"
    by (auto dest: in_set_takeD)
  then show ?thesis
    by (simp add: dot_upto_def takeWhile_eq_all_conv)
qed

lemma re_search_first:
  "lit \<noteq> [] \<Longrightarrow>
   \<forall>j<length pre. take (length lit) (drop j (pre @ lit @ rest)) \<noteq> lit \<Longrightarrow>
   re_search lit n (pre @ lit @ rest) = Some (dot_upto n rest)"
proof (induction pre)
  case Nil
  then show ?case by (cases lit) simp_all
next
  case (Cons c pre)
  from Cons.prems(2) have "take (length lit) (drop 0 ((c # pre) @ lit @ rest)) \<noteq> lit"
    by blast
  then have head: "take (length lit) (c # pre @ lit @ rest) \<noteq> lit"
    by simp
  have "\<forall>j<length pre. take (length lit) (drop j (pre @ lit @ rest)) \<noteq> lit"
  proof (intro allI impI)
    fix j assume "j < length pre"
    then have "Suc j < length (c # pre)" by simp
    with Cons.prems(2) have "take (length lit) (drop (Suc j) ((c # pre) @ lit @ rest)) \<noteq> lit"
      by blast
    then show "take (length lit) (drop j (pre @ lit @ rest)) \<noteq> lit"
      by simp
  qed
  from Cons.IH [OF Cons.prems(1) this] head show ?case
    by simp
qed

lemma re_search_None:
  "lit \<noteq> [] \<Longrightarrow> re_search lit n s = None \<longleftrightarrow> (\<nexists>pre rest. s = pre @ lit @ rest)"
proof (induction s)
  case Nil
  then show ?case by simp
next
  case (Cons c cs)
  show ?case
  proof (cases "take (length lit) (c # cs) = lit")
    case True
    then have found: "re_search lit n (c # cs) \<noteq> None"
      by simp
    have "c # cs = [] @ take (length lit) (c # cs) @ drop (length lit) (c # cs)"
      by simp
    with True have "c # cs = [] @ lit @ drop (length lit) (c # cs)"
      by simp
    then have "\<exists>pre rest. c # cs = pre @ lit @ rest"
      by blast
    with found show ?thesis by blast
  next
    case False
    have "(\<exists>pre rest. c # cs = pre @ lit @ rest) \<longleftrightarrow> (\<exists>pre rest. cs = pre @ lit @ rest)"
    proof
      assume "\<exists>pre rest. c # cs = pre @ lit @ rest"
      then obtain pre rest where d: "c # cs = pre @ lit @ rest" by blast
      show "\<exists>pre rest. cs = pre @ lit @ rest"
      proof (cases pre)
        case Nil
        with d have "take (length lit) (c # cs) = lit" by simp
        with False show ?thesis by simp
      next
        case (Cons a pre')
        with d have "cs = pre' @ lit @ rest" by simp
        then show ?thesis by blast
      qed
    next
      assume "\<exists>pre rest. cs = pre @ lit @ rest"
      then obtain pre rest where "cs = pre @ lit @ rest" by blast
      then have "c # cs = (c # pre) @ lit @ rest" by simp
      then show "\<exists>pre rest. c # cs = pre @ lit @ rest" by blast
    qed
    with False Cons.IH [OF Cons.prems] show ?thesis by simp
  qed
qed

text \<open>
  C6. When the flattened text has the literal \<open>"Background "\<close>, first at the end of
  \<open>pre\<close>, the summarization input is the text that follows that occurrence, cut to its
  first 1000 characters; the literal is not part of it.
\<close>

theorem background_capture:
  assumes "flatten raw = pre @ ''Background '' @ rest"
    and "\<forall>j<length pre. take 11 (drop j (flatten raw)) \<noteq> ''Background ''"
  shows "summarization_input raw = Some (take 1000 rest)"
proof -
  from flatten_no_newline [of raw] assms(1) have "CHR 0x0A \<notin> set rest"
    by auto
  then have "dot_upto 1000 rest = take 1000 rest"
    by (rule dot_upto_no_newline)
  moreover have "re_search ''Background '' 1000 (pre @ ''Background '' @ rest)
      = Some (dot_upto 1000 rest)"
  proof (rule re_search_first)
    show "''Background '' \<noteq> []" by simp
    have "length ''Background '' = 11" by simp
    with assms show "\<forall>j<length pre.
        take (length ''Background '') (drop j (pre @ ''Background '' @ rest)) \<noteq> ''Background ''"
      by (simp only:)
  qed
  ultimately show ?thesis
    by (simp only: summarization_input_def re_search_Background_def assms(1))
qed

theorem background_capture_witness:
  "summarization_input (''Intro'' @ [CHR 0x0A] @ ''Background'' @ [CHR 0x09] @ ''Genes matter.'')
     = Some ''Genes matter.''"
proof -
  let ?raw = "''Intro'' @ [CHR 0x0A] @ ''Background'' @ [CHR 0x09] @ ''Genes matter.''"
  have 1: "flatten ?raw = ''Intro '' @ ''Background '' @ ''Genes matter.''"
    by (simp add: flatten_def replace_char_def)
  have 2: "\<forall>j<length ''Intro ''. take 11 (drop j (flatten ?raw)) \<noteq> ''Background ''"
    by (simp add: flatten_def replace_char_def All_less_Suc)
  from background_capture [OF 1 2] show ?thesis by simp
qed

lemma random_sample_one:
  "population \<noteq> [] \<Longrightarrow>
   random_sample rnd pos population (Suc 0)
     = Inr ([population ! (rnd pos mod length population)], Suc pos)"
  by (cases population) (simp_all add: random_sample_def)

lemma input_selection_step:
  assumes "g_sample s = RandomSample" "staged w s"
  shows "input_selection w s =
    (case summarization_input (the (raw_files w (art_at w s (rng_pos s)))) of
       Some inputs \<Rightarrow> Some (Inr (inputs, s\<lparr>rng_pos := Suc (rng_pos s)\<rparr>))
     | None \<Rightarrow> input_selection w (s\<lparr>rng_pos := Suc (rng_pos s)\<rparr>))"
proof -
  from assms(2) have ne: "g_article_names s \<noteq> []" by (simp add: staged_def)
  then have "art_at w s (rng_pos s) \<in> set (g_article_names s)"
    by (simp add: art_at_def)
  with assms(2) obtain raw where raw: "raw_files w (art_at w s (rng_pos s)) = Some raw"
    by (auto simp: staged_def)
  show ?thesis
    by (subst input_selection.simps)
       (simp add: assms(1) random_sample_one [OF ne] raw art_at_def [symmetric])
qed




lemma never_matches_step:
  assumes "never_matches w s"
  shows "never_matches w (s\<lparr>rng_pos := Suc (rng_pos s)\<rparr>)"
  using assms by (simp add: never_matches_def staged_def art_at_def)

lemma never_matches_body:
  assumes "never_matches w s"
  shows "(case g_sample s of
        FrameValue df \<Rightarrow> Some (Inl TypeError)
      | RandomSample \<Rightarrow>
          (case random_sample (draws w) (rng_pos s) (g_article_names s) 1 of
             Inl e \<Rightarrow> Some (Inl e)
           | Inr (chosen, pos') \<Rightarrow>
               (case chosen of
                  [] \<Rightarrow> Some (Inl IndexError)
                | art # _ \<Rightarrow>
                    (case raw_files w art of
                       None \<Rightarrow> Some (Inl FileNotFoundError)
                     | Some raw \<Rightarrow>
                         (case summarization_input raw of
                            Some inputs \<Rightarrow> Some (Inr (inputs, s\<lparr>rng_pos := pos'\<rparr>))
                          | None \<Rightarrow> f w (s\<lparr>rng_pos := pos'\<rparr>))))))
     = f w (s\<lparr>rng_pos := Suc (rng_pos s)\<rparr>)"
proof -
  from assms have ne: "g_article_names s \<noteq> []" and rs: "g_sample s = RandomSample"
    by (simp_all add: never_matches_def staged_def)
  then have mem: "art_at w s (rng_pos s) \<in> set (g_article_names s)"
    by (simp add: art_at_def)
  with assms obtain raw where raw: "raw_files w (art_at w s (rng_pos s)) = Some raw"
    by (auto simp: never_matches_def staged_def)
  from assms have "\<not> matches w (art_at w s (rng_pos s))"
    by (simp add: never_matches_def)
  with raw have none: "summarization_input raw = None"
    by (simp add: matches_def)
  show ?thesis
    by (simp add: rs random_sample_one [OF ne] raw art_at_def [symmetric] none)
qed

lemma input_selection_diverges:
  assumes "never_matches w s"
  shows "input_selection w s = None"
proof (rule ccontr)
  assume "input_selection w s \<noteq> None"
  then obtain y where y: "input_selection w s = Some y" by blast
  then have "\<not> never_matches w s"
  proof (rule input_selection.raw_induct [rotated])
    fix f w' s' y'
    assume IH: "\<And>a b c. f a b = Some c \<Longrightarrow> \<not> never_matches a b"
      and body: "(case g_sample s' of
        FrameValue df \<Rightarrow> Some (Inl TypeError)
      | RandomSample \<Rightarrow>
          (case random_sample (draws w') (rng_pos s') (g_article_names s') 1 of
             Inl e \<Rightarrow> Some (Inl e)
           | Inr (chosen, pos') \<Rightarrow>
               (case chosen of
                  [] \<Rightarrow> Some (Inl IndexError)
                | art # _ \<Rightarrow>
                    (case raw_files w' art of
                       None \<Rightarrow> Some (Inl FileNotFoundError)
                     | Some raw \<Rightarrow>
                         (case summarization_input raw of
                            Some inputs \<Rightarrow> Some (Inr (inputs, s'\<lparr>rng_pos := pos'\<rparr>))
                          | None \<Rightarrow> f w' (s'\<lparr>rng_pos := pos'\<rparr>)))))) = Some y'"
    show "\<not> never_matches w' s'"
    proof
      assume nm: "never_matches w' s'"
      from body have "f w' (s'\<lparr>rng_pos := Suc (rng_pos s')\<rparr>) = Some y'"
        by (simp only: never_matches_body [OF nm])
      then have "\<not> never_matches w' (s'\<lparr>rng_pos := Suc (rng_pos s')\<rparr>)"
        by (rule IH)
      with never_matches_step [OF nm] show False by blast
    qed
  qed
  with assms show False by blast
qed


lemma input_selection_finds:
  assumes "g_sample s = RandomSample" "staged w s"
    and "matches w (art_at w s (rng_pos s + i))"
    and "\<forall>j<i. \<not> matches w (art_at w s (rng_pos s + j))"
  shows "input_selection w s =
    Some (Inr (the (summarization_input (the (raw_files w (art_at w s (rng_pos s + i))))),
               s\<lparr>rng_pos := rng_pos s + i + 1\<rparr>))"
  using assms
proof (induction i arbitrary: s)
  case 0
  from 0(2) have "raw_files w (art_at w s (rng_pos s)) \<noteq> None"
    by (simp add: staged_def art_at_def)
  with 0(3) obtain inputs where
    "summarization_input (the (raw_files w (art_at w s (rng_pos s)))) = Some inputs"
    by (auto simp: matches_def)
  with input_selection_step [OF 0(1,2)] show ?case
    by simp
next
  case (Suc i)
  let ?s' = "s\<lparr>rng_pos := Suc (rng_pos s)\<rparr>"
  from Suc.prems(4) have "\<not> matches w (art_at w s (rng_pos s + 0))" by blast
  moreover from Suc.prems(2) have "raw_files w (art_at w s (rng_pos s)) \<noteq> None"
    by (simp add: staged_def art_at_def)
  ultimately have none: "summarization_input (the (raw_files w (art_at w s (rng_pos s)))) = None"
    by (auto simp: matches_def)
  have step: "input_selection w s = input_selection w ?s'"
    using input_selection_step [OF Suc.prems(1,2)] by (simp add: none)
  have "input_selection w ?s' =
    Some (Inr (the (summarization_input (the (raw_files w (art_at w ?s' (rng_pos ?s' + i))))),
               ?s'\<lparr>rng_pos := rng_pos ?s' + i + 1\<rparr>))"
  proof (rule Suc.IH)
    show "g_sample ?s' = RandomSample" using Suc.prems(1) by simp
    show "staged w ?s'" using Suc.prems(2) by (simp add: staged_def)
    show "matches w (art_at w ?s' (rng_pos ?s' + i))"
      using Suc.prems(3) by (simp add: art_at_def)
    show "\<forall>j<i. \<not> matches w (art_at w ?s' (rng_pos ?s' + j))"
    proof (intro allI impI)
      fix j assume "j < i"
      then have "Suc j < Suc i" by simp
      with Suc.prems(4) have "\<not> matches w (art_at w s (rng_pos s + Suc j))" by blast
      then show "\<not> matches w (art_at w ?s' (rng_pos ?s' + j))" by (simp add: art_at_def)
    qed
  qed
  with step show ?case by (simp add: art_at_def)
qed

section \<open>Properties of the notebook's flow\<close>

lemma results_empty_iff: "results tt dt = [] \<longleftrightarrow> dt = []"
proof -
  have "length (results tt dt) = length dt"
    by (simp add: results_rows docs_def)
  then show ?thesis by (metis length_0_conv)
qed

lemma describe_cell_completed:
  assumes "job_status_at w (describe_calls s) = COMPLETED"
  shows "describe_cell w s =
    (s\<lparr>g_JobStatus := Some COMPLETED,
       describe_calls := describe_calls s + 1,
       trace := trace s @ [DescribeTopicsDetectionJob, PrintStatus COMPLETED,
                           DownloadOutput, UnpackOutput, JoinTables, DisplayResults],
       g_results := Some (results (topic_terms_csv w) (doc_topics_csv w))\<rparr>, None)"
  using assms by (simp add: describe_cell_def Let_def)

lemma examples_cell_rebinds:
  assumes "g_JobStatus s = Some COMPLETED" "g_results s = Some df" "df \<noteq> []"
  shows "\<exists>row. g_sample (fst (examples_cell w s)) = FrameValue [row]"
  using assms by (auto simp: examples_cell_def frame_sample_def split: prod.splits)

lemma input_selection_shadowed:
  "g_sample s = FrameValue df \<Longrightarrow> input_selection w s = Some (Inl TypeError)"
  by (subst input_selection.simps) simp

lemma input_selection_yields:
  "input_selection w s = Some (Inr r) \<Longrightarrow> g_sample s = RandomSample"
  by (cases "g_sample s") (simp_all add: input_selection_shadowed)

lemma topic_modelling_completed:
  assumes "job_status_at w (describe_calls s) = COMPLETED" "doc_topics_csv w \<noteq> []"
  shows "\<exists>row. g_sample (fst (topic_modelling w s)) = FrameValue [row]"
proof -
  let ?s1 = "fst (describe_cell w (fst (submit_cell w s)))"
  have d: "job_status_at w (describe_calls (fst (submit_cell w s))) = COMPLETED"
    using assms(1) by (simp add: submit_cell_def)
  have tm: "topic_modelling w s = examples_cell w ?s1"
    by (simp add: topic_modelling_def then_cell_def submit_cell_def describe_cell_def Let_def)
  have "g_JobStatus ?s1 = Some COMPLETED"
    "g_results ?s1 = Some (results (topic_terms_csv w) (doc_topics_csv w))"
    by (simp_all add: describe_cell_completed [OF d])
  moreover have "results (topic_terms_csv w) (doc_topics_csv w) \<noteq> []"
    using assms(2) by (simp add: results_empty_iff)
  ultimately show ?thesis
    unfolding tm by (rule examples_cell_rebinds)
qed

text \<open>
  C7. While \<open>sample\<close> names the sampling function, the loop retries forever when no
  article it reads has the pattern. On a run whose job is completed at the status check
  and whose document table has a row, the topic-modelling cells rebind \<open>sample\<close>: from
  the state they leave, the loop stops at its first call of \<open>sample\<close> with
  \<open>TypeError\<close>, although still no article has the pattern.
\<close>

theorem input_selection_stops_after_display:
  assumes "job_status_at w (describe_calls s) = COMPLETED" "doc_topics_csv w \<noteq> []"
    and "never_matches w s"
  shows "input_selection w s = None
    \<and> input_selection w (fst (topic_modelling w s)) = Some (Inl TypeError)"
proof -
  from topic_modelling_completed [OF assms(1,2)] obtain row where
    "g_sample (fst (topic_modelling w s)) = FrameValue [row]" by blast
  then have "input_selection w (fst (topic_modelling w s)) = Some (Inl TypeError)"
    by (rule input_selection_shadowed)
  with input_selection_diverges [OF assms(3)] show ?thesis by simp
qed

lemma example_never_matches: "never_matches example_world example_notebook"
proof -
  have "summarization_input ''Methods and results only.'' = None"
    by (simp add: summarization_input_def re_search_Background_def flatten_def replace_char_def)
  then have "\<not> matches example_world a" for a
    by (simp add: matches_def example_world_def)
  then show ?thesis
    by (simp add: never_matches_def staged_def example_world_def example_notebook_def
        example_names_def)
qed

theorem input_selection_stops_after_display_witness:
  "input_selection example_world example_notebook = None
   \<and> input_selection example_world (fst (topic_modelling example_world example_notebook))
       = Some (Inl TypeError)"
proof (rule input_selection_stops_after_display)
  show "job_status_at example_world (describe_calls example_notebook) = COMPLETED"
    by (simp add: example_world_def)
  show "doc_topics_csv example_world \<noteq> []"
    by (simp add: example_world_def)
  show "never_matches example_world example_notebook"
    by (rule example_never_matches)
qed


text \<open>
  C10. When the examples cell reaches its assignment (the stored status is completed and
  the joined table has a row), \<open>sample\<close> names a one-row frame afterwards and the
  input-selection loop ends with \<open>TypeError\<close> at its first call; the loop yields an
  input after the examples cell only when that cell left \<open>sample\<close> alone.
\<close>

theorem display_stage_shadows_sample:
  "(g_JobStatus s = Some COMPLETED \<and> g_results s = Some df \<and> df \<noteq> [] \<longrightarrow>
      (\<exists>row. g_sample (fst (examples_cell w s)) = FrameValue [row])
      \<and> input_selection w (fst (examples_cell w s)) = Some (Inl TypeError))
   \<and> (input_selection w (fst (examples_cell w s)) = Some (Inr r) \<longrightarrow>
      g_sample (fst (examples_cell w s)) = RandomSample
      \<and> \<not> (g_JobStatus s = Some COMPLETED \<and> (\<exists>df. g_results s = Some df \<and> df \<noteq> [])))"
proof -
  have 1: "(\<exists>row. g_sample (fst (examples_cell w s)) = FrameValue [row])
      \<and> input_selection w (fst (examples_cell w s)) = Some (Inl TypeError)"
    if "g_JobStatus s = Some COMPLETED" "g_results s = Some df" "df \<noteq> []" for df
  proof -
    from examples_cell_rebinds [OF that] obtain row where
      row: "g_sample (fst (examples_cell w s)) = FrameValue [row]" by blast
    from input_selection_shadowed [OF row] row show ?thesis by blast
  qed
  have 2: "g_sample (fst (examples_cell w s)) = RandomSample
      \<and> \<not> (g_JobStatus s = Some COMPLETED \<and> (\<exists>df. g_results s = Some df \<and> df \<noteq> []))"
    if y: "input_selection w (fst (examples_cell w s)) = Some (Inr r)"
  proof -
    have "\<not> (g_JobStatus s = Some COMPLETED \<and> (\<exists>df. g_results s = Some df \<and> df \<noteq> []))"
    proof
      assume "g_JobStatus s = Some COMPLETED \<and> (\<exists>df. g_results s = Some df \<and> df \<noteq> [])"
      then obtain df' where "g_JobStatus s = Some COMPLETED" "g_results s = Some df'" "df' \<noteq> []"
        by blast
      from 1 [OF this] y show False by simp
    qed
    with input_selection_yields [OF y] show ?thesis by simp
  qed
  from 1 2 show ?thesis by blast
qed

theorem display_stage_shadows_sample_witness:
  "input_selection example_world
     (fst (examples_cell example_world
        (example_notebook\<lparr>g_JobStatus := Some COMPLETED,
           g_results := Some [(''a.txt'', 1, 8/10, Some ''gene, cell'')]\<rparr>)))
     = Some (Inl TypeError)
   \<and> input_selection (example_world\<lparr>raw_files := (\<lambda>name. Some ''Background Genes matter.'')\<rparr>)
       (fst (examples_cell (example_world\<lparr>raw_files := (\<lambda>name. Some ''Background Genes matter.'')\<rparr>)
          example_notebook))
     = Some (Inr (''Genes matter.'', example_notebook\<lparr>rng_pos := 26\<rparr>))
   \<and> g_sample (fst (examples_cell (example_world\<lparr>raw_files := (\<lambda>name. Some ''Background Genes matter.'')\<rparr>)
          example_notebook)) = RandomSample"
proof -
  let ?s1 = "example_notebook\<lparr>g_JobStatus := Some COMPLETED,
           g_results := Some [(''a.txt'', 1, 8/10, Some ''gene, cell'')]\<rparr>"
  let ?w2 = "example_world\<lparr>raw_files := (\<lambda>name. Some ''Background Genes matter.'')\<rparr>"
  have a: "g_JobStatus ?s1 = Some COMPLETED \<and> g_results ?s1 = Some [(''a.txt'', 1, 8/10, Some ''gene, cell'')]
      \<and> [(''a.txt'', 1::int, 8/10::real, Some ''gene, cell'')] \<noteq> []"
    by simp
  have e: "fst (examples_cell ?w2 example_notebook) = example_notebook"
    by (simp add: examples_cell_def example_notebook_def)
  have b: "input_selection ?w2 (fst (examples_cell ?w2 example_notebook))
      = Some (Inr (''Genes matter.'', example_notebook\<lparr>rng_pos := 26\<rparr>))"
    unfolding e
    by (subst input_selection.simps)
       (simp add: example_notebook_def example_world_def example_names_def random_sample_def
          summarization_input_def re_search_Background_def flatten_def replace_char_def
          dot_upto_def)
  from display_stage_shadows_sample
    [of ?s1 "[(''a.txt'', 1, 8/10, Some ''gene, cell'')]" example_world]
    a
  have 1: "input_selection example_world (fst (examples_cell example_world ?s1)) = Some (Inl TypeError)"
    by blast
  from display_stage_shadows_sample
    [of example_notebook _ ?w2 "(''Genes matter.'', example_notebook\<lparr>rng_pos := 26\<rparr>)"]
    b
  have 2: "g_sample (fst (examples_cell ?w2 example_notebook)) = RandomSample"
    by blast
  from 1 b 2 show ?thesis by blast
qed




section \<open>Properties of the wait for the result\<close>

lemma wait_skip:
  assumes "\<forall>j<i. output_at (t + delay cfg * j) = None" "n + i < max_attempts cfg"
  shows "wait_for_output cfg output_at t n =
    (map (\<lambda>j. t + delay cfg * j) [0..<i] @ fst (wait_for_output cfg output_at (t + delay cfg * i) (n + i)),
     snd (wait_for_output cfg output_at (t + delay cfg * i) (n + i)))"
  using assms
proof (induction i arbitrary: t n)
  case 0
  then show ?case by simp
next
  case (Suc i)
  from Suc.prems(1) have none: "output_at t = None"
    by (metis mult_0_right add_0_right zero_less_Suc)
  have later: "\<forall>j<i. output_at (t + delay cfg + delay cfg * j) = None"
  proof (intro allI impI)
    fix j assume "j < i"
    then have "Suc j < Suc i" by simp
    with Suc.prems(1) have "output_at (t + delay cfg * Suc j) = None" by blast
    then show "output_at (t + delay cfg + delay cfg * j) = None" by (simp add: add.assoc)
  qed
  from Suc.prems(2) have n: "Suc n + i < max_attempts cfg" "\<not> max_attempts cfg \<le> n + 1"
    by simp_all
  have step: "wait_for_output cfg output_at t n =
      (t # fst (wait_for_output cfg output_at (t + delay cfg) (Suc n)),
       snd (wait_for_output cfg output_at (t + delay cfg) (Suc n)))"
    using none n(2) by (subst wait_for_output.simps) (simp add: split_beta)
  have times: "t # map (\<lambda>j. t + delay cfg + delay cfg * j) [0..<i]
      = map (\<lambda>j. t + delay cfg * j) [0..<Suc i]"
    by (simp add: upt_conv_Cons map_Suc_upt [symmetric] del: upt_Suc) 
  show ?case
    unfolding step Suc.IH [OF later n(1)]
    using times by (simp add: add.assoc del: upt_Suc)
qed


lemma wait_found:
  assumes "\<forall>j<i. output_at (t + delay cfg * j) = None"
    and "output_at (t + delay cfg * i) = Some summary" and "n + i < max_attempts cfg"
  shows "wait_for_output cfg output_at t n = (map (\<lambda>j. t + delay cfg * j) [0..<Suc i], Inr summary)"
proof -
  have "wait_for_output cfg output_at (t + delay cfg * i) (n + i) = ([t + delay cfg * i], Inr summary)"
    using assms(2) by (subst wait_for_output.simps) simp
  with wait_skip [OF assms(1,3)] show ?thesis by simp
qed

lemma wait_timeout:
  assumes "\<forall>j<max_attempts cfg - n. output_at (t + delay cfg * j) = None"
    and "n < max_attempts cfg"
  shows "wait_for_output cfg output_at t n =
    (map (\<lambda>j. t + delay cfg * j) [0..<max_attempts cfg - n], Inl PollingTimeoutError)"
proof -
  define i where "i = max_attempts cfg - n - 1"
  with assms(2) have i: "Suc i = max_attempts cfg - n" "n + i < max_attempts cfg"
    by simp_all
  from assms(1) i(1) have before: "\<forall>j<i. output_at (t + delay cfg * j) = None"
    and last: "output_at (t + delay cfg * i) = None"
    by (metis less_Suc_eq)+
  from i have "max_attempts cfg \<le> n + i + 1" by simp
  with last have "wait_for_output cfg output_at (t + delay cfg * i) (n + i)
      = ([t + delay cfg * i], Inl PollingTimeoutError)"
    by (subst wait_for_output.simps) simp
  with wait_skip [OF before i(2)] show ?thesis
    by (simp add: i(1) [symmetric])
qed

lemma result_cell_found:
  assumes "i < 24" "\<forall>j<i. output_at (t0 + 15 * j) = None" "output_at (t0 + 15 * i) = Some summary"
  shows "result_cell output_at t0 = (map (\<lambda>j. t0 + 15 * j) [0..<Suc i], Inr summary)"
  using wait_found [of i output_at t0 waiter summary 0] assms
  by (simp add: result_cell_def get_result_def waiter_def)

lemma result_cell_timeout:
  assumes "\<forall>i<24. output_at (t0 + 15 * i) = None"
  shows "result_cell output_at t0 = (map (\<lambda>j. t0 + 15 * j) [0..<24], Inl PollingTimeoutError)"
  using wait_timeout [of waiter 0 output_at t0] assms
  by (simp add: result_cell_def get_result_def waiter_def)

text \<open>
  C9. The wait makes at most 24 attempts, the \<open>i\<close>-th of them 15 time units after the
  one before. When the result is there at one of these attempts the wait returns its
  summary at the first such attempt; when it is there at none of the 24 the wait ends with
  the timeout error after the 24th, and the cell, which calls the wait once, ends with
  that error.
\<close>

theorem bounded_wait:
  "length (fst (result_cell output_at t0)) \<le> 24
   \<and> fst (result_cell output_at t0)
       = map (\<lambda>i. t0 + 15 * i) [0..<length (fst (result_cell output_at t0))]
   \<and> (\<forall>i<24. (\<forall>j<i. output_at (t0 + 15 * j) = None) \<and> output_at (t0 + 15 * i) = Some summary
         \<longrightarrow> result_cell output_at t0 = (map (\<lambda>j. t0 + 15 * j) [0..<Suc i], Inr summary))
   \<and> ((\<forall>i<24. output_at (t0 + 15 * i) = None)
         \<longrightarrow> result_cell output_at t0
             = (map (\<lambda>j. t0 + 15 * j) [0..<24], Inl PollingTimeoutError))"
proof -
  have shape: "length (fst (result_cell output_at t0)) \<le> 24
     \<and> fst (result_cell output_at t0)
         = map (\<lambda>i. t0 + 15 * i) [0..<length (fst (result_cell output_at t0))]"
  proof (cases "\<exists>i<24. output_at (t0 + 15 * i) \<noteq> None")
    case True
    define i where "i = (LEAST i. i < 24 \<and> output_at (t0 + 15 * i) \<noteq> None)"
    from True have "i < 24 \<and> output_at (t0 + 15 * i) \<noteq> None"
      unfolding i_def by (rule LeastI_ex)
    then obtain found where i: "i < 24" "output_at (t0 + 15 * i) = Some found"
      by blast
    have "\<forall>j<i. output_at (t0 + 15 * j) = None"
    proof (intro allI impI)
      fix j assume j: "j < i"
      then have "\<not> (j < 24 \<and> output_at (t0 + 15 * j) \<noteq> None)"
        unfolding i_def by (rule not_less_Least)
      with j i(1) show "output_at (t0 + 15 * j) = None" by simp
    qed
    from result_cell_found [OF i(1) this i(2)] i(1) show ?thesis
      by (simp del: upt_Suc)
  next
    case False
    then have "\<forall>i<24. output_at (t0 + 15 * i) = None" by blast
    from result_cell_timeout [OF this] show ?thesis by simp
  qed
  have found: "\<forall>i<24. (\<forall>j<i. output_at (t0 + 15 * j) = None) \<and> output_at (t0 + 15 * i) = Some summary
         \<longrightarrow> result_cell output_at t0 = (map (\<lambda>j. t0 + 15 * j) [0..<Suc i], Inr summary)"
    using result_cell_found by blast
  have timeout: "(\<forall>i<24. output_at (t0 + 15 * i) = None)
         \<longrightarrow> result_cell output_at t0
             = (map (\<lambda>j. t0 + 15 * j) [0..<24], Inl PollingTimeoutError)"
    using result_cell_timeout by blast
  from shape found timeout show ?thesis by blast
qed

theorem bounded_wait_witness:
  "result_cell (\<lambda>t. if 40 \<le> t then Some ''tldr'' else None) 10
     = ([10, 25, 40], Inr ''tldr'')
   \<and> snd (result_cell (\<lambda>t. None) 0) = Inl PollingTimeoutError
   \<and> length (fst (result_cell (\<lambda>t. None) 0)) = 24"
proof -
  let ?out = "\<lambda>t::nat. if 40 \<le> t then Some ''tldr'' else None"
  have a: "(2::nat) < 24" "(\<forall>j<2. ?out (10 + 15 * j) = None) \<and> ?out (10 + 15 * 2) = Some ''tldr''"
    by (simp_all add: numeral_2_eq_2 less_Suc_eq)
  from bounded_wait [of ?out 10 "''tldr''"] a
  have 1: "result_cell ?out 10 = (map (\<lambda>j. 10 + 15 * j) [0..<Suc 2], Inr ''tldr'')"
    by blast
  have 2: "map (\<lambda>j. 10 + 15 * j) [0..<Suc 2] = [10, 25, 40::nat]"
    by (simp add: numeral_2_eq_2)
  have b: "\<forall>i<24. (\<lambda>t::nat. None :: string option) (0 + 15 * i) = None"
    by simp
  from bounded_wait [of "\<lambda>t. None" 0] b
  have 3: "result_cell (\<lambda>t. None) 0 = (map (\<lambda>j. 0 + 15 * j) [0..<24], Inl PollingTimeoutError)"
    by blast
  from 1 2 3 show ?thesis by simp
qed

end
